theory Spec2Isabelle
  imports Main "HOL-Library.Word"
begin

section \<open>Sanitizer\<close>

text \<open>
  \<^verbatim>\<open>std::isdigit\<close> in the C locale: the ten characters \<^verbatim>\<open>0\<close> .. \<^verbatim>\<open>9\<close> (codes 48 .. 57).
\<close>

definition isdigit :: "char \<Rightarrow> bool" where
  "isdigit c = (48 \<le> (of_char c :: nat) \<and> (of_char c :: nat) \<le> 57)"

text \<open>
  \<^verbatim>\<open>std::string_view::find_first_of(chars)\<close>: the position of the first character of the
  text that is one of \<open>chars\<close>; \<open>None\<close> stands for \<^verbatim>\<open>npos\<close>.
\<close>

fun find_first_of :: "string \<Rightarrow> string \<Rightarrow> nat option" where
  "find_first_of [] chars = None"
| "find_first_of (c # cs) chars =
     (if c \<in> set chars then Some 0
      else (case find_first_of cs chars of None \<Rightarrow> None | Some p \<Rightarrow> Some (Suc p)))"

definition forbidden_chars :: string where
  "forbidden_chars = '';&|`$(){}[]<>''"

definition isValidPattern :: "string \<Rightarrow> bool" where
  "isValidPattern pattern =
     (length pattern < 100 \<and> find_first_of pattern forbidden_chars = None)"

section \<open>CPU topology\<close>

text \<open>
  What probing one core index meets in \<^verbatim>\<open>detectCores\<close>:
  \<^item> \<open>NotOpen\<close>: the stream on \<^verbatim>\<open>cpuN/cpufreq/cpuinfo_max_freq\<close> is not open;
  \<^item> \<open>Opened v\<close>: the stream is open and \<open>v\<close> is what \<^verbatim>\<open>maxFreq\<close> holds after
    \<^verbatim>\<open>freqFile >> maxFreq\<close>. The stream's exception mask is never set, so a failed
    extraction does not throw: it only leaves its value in \<^verbatim>\<open>maxFreq\<close>, and the code
    never looks at the stream state;
  \<^item> \<open>Throws\<close>: an exception leaves a statement of the loop body (the candidates are
    allocation failures in the path concatenation, the stream and \<^verbatim>\<open>push_back\<close>).
\<close>

datatype probe = NotOpen | Opened int | Throws

type_synonym sysfs = "nat \<Rightarrow> probe"

record CoreInfo =
  perfCores :: "nat list"
  effCores :: "nat list"
  totalCores :: nat

type_synonym logline = "string \<times> bool"  \<comment> \<open>message, \<^verbatim>\<open>isError\<close>\<close>

text \<open>
  The \<^verbatim>\<open>for (int i = 0; i < 16; ++i)\<close> loop of \<^verbatim>\<open>detectCores\<close>, from index \<open>i\<close> on.
  The first component is \<open>None\<close> when an exception left the loop; the second lists the
  core indices whose probing was started, in order.
\<close>

function detect_loop :: "sysfs \<Rightarrow> nat \<Rightarrow> CoreInfo \<Rightarrow> nat list \<Rightarrow> CoreInfo option \<times> nat list" where
  "detect_loop cpu i info probed =
     (if i < 16 then
        (case cpu i of
           NotOpen \<Rightarrow> (Some info, probed @ [i])
         | Throws \<Rightarrow> (None, probed @ [i])
         | Opened maxFreq \<Rightarrow>
             detect_loop cpu (i + 1)
               (if maxFreq > 2000000
                then info\<lparr>totalCores := totalCores info + 1, perfCores := perfCores info @ [i]\<rparr>
                else info\<lparr>totalCores := totalCores info + 1, effCores := effCores info @ [i]\<rparr>)
               (probed @ [i]))
      else (Some info, probed))"
  by pat_completeness auto
termination
  by (relation "measure (\<lambda>(cpu, i, info, probed). 16 - i)") auto

declare detect_loop.simps [simp del]

definition default_topology :: CoreInfo where
  "default_topology = \<lparr>perfCores = [4, 5, 6, 7], effCores = [0, 1, 2, 3], totalCores = 8\<rparr>"

definition topology_warning :: logline where
  "topology_warning = (''Failed to detect CPU topology, using defaults'', True)"

text \<open>
  \<^verbatim>\<open>detectCores\<close>: the topology returned, the lines handed to the logger and the indices
  probed.
\<close>

definition detectCores :: "sysfs \<Rightarrow> CoreInfo \<times> logline list \<times> nat list" where
  "detectCores cpu =
     (case detect_loop cpu 0 \<lparr>perfCores = [], effCores = [], totalCores = 0\<rparr> [] of
        (Some info, probed) \<Rightarrow> (info, [], probed)
      | (None, probed) \<Rightarrow> (default_topology, [topology_warning], probed))"

text \<open>
  \<^verbatim>\<open>cpu_set_t\<close> as the set of CPU numbers whose bit is set; \<^verbatim>\<open>CPU_SET\<close> ignores a
  number beyond \<^verbatim>\<open>CPU_SETSIZE\<close> (1024).
\<close>

type_synonym cpu_set_t = "nat set"

definition CPU_ZERO :: cpu_set_t where
  "CPU_ZERO = {}"

definition CPU_SET :: "nat \<Rightarrow> cpu_set_t \<Rightarrow> cpu_set_t" where
  "CPU_SET core cpus = (if core < 1024 then insert core cpus else cpus)"

text \<open>The mask loops of \<^verbatim>\<open>getPerfMask\<close>, \<^verbatim>\<open>getEffMask\<close> and \<^verbatim>\<open>getAllMask\<close> on a detected topology.\<close>

definition perfMask :: "CoreInfo \<Rightarrow> cpu_set_t" where
  "perfMask info = fold CPU_SET (perfCores info) CPU_ZERO"

definition effMask :: "CoreInfo \<Rightarrow> cpu_set_t" where
  "effMask info = fold CPU_SET (effCores info) CPU_ZERO"

definition allMask :: "CoreInfo \<Rightarrow> cpu_set_t" where
  "allMask info = fold CPU_SET [0..<totalCores info] CPU_ZERO"

text \<open>Example sysfs contents.\<close>

definition no_cpufreq :: sysfs where
  "no_cpufreq i = NotOpen"

definition seventeen_cores :: sysfs where
  "seventeen_cores i = (if i < 17 then Opened 1800000 else NotOpen)"

definition big_little :: sysfs where
  "big_little i = (if i < 4 then Opened 1800000 else if i < 8 then Opened 2400000 else NotOpen)"

definition fast_then_throw :: sysfs where
  "fast_then_throw i = (if i = 0 then Opened 3000000 else Throws)"

section \<open>The host: procfs, scheduling calls, time\<close>

type_synonym pid_t = int

text \<open>
  One step of a \<^verbatim>\<open>fs::directory_iterator\<close>: an entry (file name, \<^verbatim>\<open>is_directory()\<close>), or
  an increment that throws \<^verbatim>\<open>filesystem_error\<close> with the given \<^verbatim>\<open>what()\<close>. An iterator
  that could not be constructed (\<^verbatim>\<open>ec\<close> set) equals \<^verbatim>\<open>end\<close>: it is the empty listing.
\<close>

datatype dir_item = Entry string bool | IterError string

text \<open>What a system call answers: its return value, and the \<^verbatim>\<open>errno\<close> it stores, if any.\<close>

type_synonym sysret = "int \<times> int option"

text \<open>The answers of the host at one instant.\<close>

record host =
  proc_exists :: "pid_t \<Rightarrow> bool"
    \<comment> \<open>what \<^verbatim>\<open>fs::exists("/proc/" + std::to_string(pid))\<close> returns, when it returns\<close>
  exists_error :: "pid_t \<Rightarrow> string option"
    \<comment> \<open>the \<^verbatim>\<open>what()\<close> of the \<^verbatim>\<open>filesystem_error\<close> that call raises instead, on a status
      error other than not-found\<close>
  proc_dir :: "dir_item list"  \<comment> \<open>the enumeration of \<^verbatim>\<open>/proc\<close>\<close>
  task_dir :: "pid_t \<Rightarrow> dir_item list"  \<comment> \<open>the enumeration of \<^verbatim>\<open>/proc/<pid>/task\<close>\<close>
  comm_line :: "string \<Rightarrow> string option"
    \<comment> \<open>\<^verbatim>\<open>std::getline\<close> on \<^verbatim>\<open>/proc/<name>/comm\<close>; \<open>None\<close> when it reads nothing\<close>
  sched_setaffinity :: "pid_t \<Rightarrow> cpu_set_t \<Rightarrow> sysret"
  setpriority :: "pid_t \<Rightarrow> int \<Rightarrow> sysret"  \<comment> \<open>with \<^verbatim>\<open>PRIO_PROCESS\<close>\<close>
  sched_setscheduler :: "pid_t \<Rightarrow> int \<Rightarrow> int \<Rightarrow> sysret"  \<comment> \<open>tid, policy, priority\<close>
  ioprio_set :: "int \<Rightarrow> pid_t \<Rightarrow> int \<Rightarrow> sysret"  \<comment> \<open>which, who, ioprio\<close>
  errno0 :: int  \<comment> \<open>what \<^verbatim>\<open>errno\<close> holds before the call\<close>
  strerror :: "int \<Rightarrow> string"
  cpufreq :: sysfs

text \<open>
  The host may answer differently each time it is asked (threads exit, files vanish):
  \<open>H t\<close> is the host at the \<open>t\<close>-th interaction.
\<close>

type_synonym timeline = "nat \<Rightarrow> host"

datatype attr = Affinity | Nice | RT | IOPrio

datatype event = Call attr pid_t | Sleep int

text \<open>
  The part of the process state the program changes: the count of host interactions made,
  the calls and sleeps performed, the lines handed to \<^verbatim>\<open>Logger::log\<close>, and the
  function-local statics of \<^verbatim>\<open>getPerfMask\<close>, \<^verbatim>\<open>getEffMask\<close> and \<^verbatim>\<open>getAllMask\<close>.
\<close>

record world =
  tick :: nat
  events :: "event list"
  log :: "logline list"
  perf_info :: "CoreInfo option"
  eff_info :: "CoreInfo option"
  all_info :: "CoreInfo option"

definition Logger_log :: "string \<Rightarrow> bool \<Rightarrow> world \<Rightarrow> world" where
  "Logger_log message isError w = w\<lparr>log := log w @ [(message, isError)]\<rparr>"

definition sleep_for :: "int \<Rightarrow> world \<Rightarrow> world" where
  "sleep_for ms w = w\<lparr>tick := tick w + 1, events := events w @ [Sleep ms]\<rparr>"

definition MAX_RETRIES :: int where
  "MAX_RETRIES = 3"

definition RETRY_DELAY_MS :: int where
  "RETRY_DELAY_MS = 50"

text \<open>\<^verbatim>\<open>std::to_string\<close> on an \<^verbatim>\<open>int\<close>.\<close>

fun nat_digits :: "nat \<Rightarrow> string" where
  "nat_digits n =
     (if n < 10 then [char_of (48 + n)] else nat_digits (n div 10) @ [char_of (48 + n mod 10)])"

declare nat_digits.simps [simp del]

definition to_string :: "int \<Rightarrow> string" where
  "to_string i = (if i < 0 then CHR ''-'' # nat_digits (nat (- i)) else nat_digits (nat i))"

text \<open>
  \<^verbatim>\<open>Sanitizer::isValidPID\<close>, as the value it returns. Its call of \<^verbatim>\<open>fs::exists\<close> can raise
  instead: \<open>isValidPID_exn\<close> below is the call with that outcome.
\<close>

definition isValidPID :: "host \<Rightarrow> pid_t \<Rightarrow> bool" where
  "isValidPID h pid = (pid > 0 \<and> pid < 99999 \<and> proc_exists h pid)"

subsection \<open>The memoised masks\<close>

text \<open>
  \<^verbatim>\<open>static CoreInfo info = detectCores();\<close> runs the detection at the first call only, so
  each of the three functions keeps its own topology.
\<close>

definition getPerfMask :: "timeline \<Rightarrow> world \<Rightarrow> cpu_set_t \<times> world" where
  "getPerfMask H w =
     (case perf_info w of
        Some info \<Rightarrow> (perfMask info, w)
      | None \<Rightarrow>
          (case detectCores (cpufreq (H (tick w))) of
             (info, lines, probed) \<Rightarrow>
               (perfMask info, w\<lparr>tick := tick w + 1, log := log w @ lines, perf_info := Some info\<rparr>)))"


definition getAllMask :: "timeline \<Rightarrow> world \<Rightarrow> cpu_set_t \<times> world" where
  "getAllMask H w =
     (case all_info w of
        Some info \<Rightarrow> (allMask info, w)
      | None \<Rightarrow>
          (case detectCores (cpufreq (H (tick w))) of
             (info, lines, probed) \<Rightarrow>
               (allMask info, w\<lparr>tick := tick w + 1, log := log w @ lines, all_info := Some info\<rparr>)))"

section \<open>SyscallOptimizer\<close>

record OpResult =
  success :: bool
  error :: string

definition errno_after :: "int \<Rightarrow> int option \<Rightarrow> int" where
  "errno_after prior stored = (case stored of None \<Rightarrow> prior | Some e \<Rightarrow> e)"

definition setAffinityDirect :: "host \<Rightarrow> pid_t \<Rightarrow> cpu_set_t \<Rightarrow> OpResult" where
  "setAffinityDirect h tid cpus =
     (if \<not> isValidPID h tid then \<lparr>success = False, error = ''Invalid TID''\<rparr>
      else
        (case sched_setaffinity h tid cpus of
           (ret, stored) \<Rightarrow>
             if ret = 0 then \<lparr>success = True, error = []\<rparr>
             else \<lparr>success = False,
                   error = ''sched_setaffinity failed: '' @ strerror h (errno_after (errno0 h) stored)\<rparr>))"

text \<open>\<^verbatim>\<open>errno = 0\<close> precedes the call, so afterwards \<^verbatim>\<open>errno\<close> is 0 unless the call stored one.\<close>

definition setNiceDirect :: "host \<Rightarrow> pid_t \<Rightarrow> int \<Rightarrow> OpResult" where
  "setNiceDirect h tid v =
     (if \<not> isValidPID h tid then \<lparr>success = False, error = ''Invalid TID''\<rparr>
      else
        (case setpriority h tid v of
           (ret, stored) \<Rightarrow>
             if ret = 0 \<or> errno_after 0 stored = 0 then \<lparr>success = True, error = []\<rparr>
             else \<lparr>success = False,
                   error = ''setpriority failed: '' @ strerror h (errno_after 0 stored)\<rparr>))"













section \<open>ProcessUtils\<close>

text \<open>The exceptions of the program's library calls, with their \<^verbatim>\<open>what()\<close>.\<close>

datatype exn = invalid_argument | out_of_range | filesystem_error string | regex_error string

fun what :: "exn \<Rightarrow> string" where
  "what invalid_argument = ''stoi''"
| "what out_of_range = ''stoi''"
| "what (filesystem_error m) = m"
| "what (regex_error m) = m"

text \<open>
  \<^verbatim>\<open>Sanitizer::isValidPID\<close> as called: \<^verbatim>\<open>fs::exists\<close> is reached only for an ID in range, and
  raises \<^verbatim>\<open>filesystem_error\<close> when the status of the path cannot be read.
\<close>

definition isValidPID_exn :: "host \<Rightarrow> pid_t \<Rightarrow> exn + bool" where
  "isValidPID_exn h pid =
     (if pid > 0 \<and> pid < 99999 then
        (case exists_error h pid of
           Some m \<Rightarrow> Inl (filesystem_error m)
         | None \<Rightarrow> Inr (proc_exists h pid))
      else Inr False)"

text \<open>
  \<^verbatim>\<open>std::stoi\<close> on a string of decimal digits, the only strings it is called on: no
  conversion on the empty string, and a value beyond \<^verbatim>\<open>INT_MAX\<close> is out of range.
\<close>

definition digit_value :: "char \<Rightarrow> int" where
  "digit_value c = of_char c - 48"

definition stoi :: "string \<Rightarrow> exn + int" where
  "stoi s =
     (if s = [] then Inl invalid_argument
      else if foldl (\<lambda>n c. 10 * n + digit_value c) 0 s > 2147483647 then Inl out_of_range
      else Inr (foldl (\<lambda>n c. 10 * n + digit_value c) 0 s))"

text \<open>
  \<^verbatim>\<open>std::regex\<close>: compiling a pattern either throws \<^verbatim>\<open>regex_error\<close> (\<open>Inl\<close> its
  \<^verbatim>\<open>what()\<close>) or gives the predicate \<^verbatim>\<open>regex_search(comm, regex)\<close>.
\<close>

type_synonym regex_lib = "string \<Rightarrow> string + (string \<Rightarrow> bool)"

text \<open>
  The loop of \<^verbatim>\<open>getProcessIDs\<close> over the entries of \<^verbatim>\<open>/proc\<close>: the vector \<^verbatim>\<open>pids\<close> as left
  by the loop, and the exception that ended it, if any (of \<^verbatim>\<open>stoi\<close>, of \<^verbatim>\<open>isValidPID\<close>, of the
  iterator: the loop is inside the \<^verbatim>\<open>try\<close> block).
\<close>

fun scan_proc :: "host \<Rightarrow> (string \<Rightarrow> bool) \<Rightarrow> dir_item list \<Rightarrow> pid_t list \<Rightarrow> pid_t list \<times> exn option" where
  "scan_proc h matches [] pids = (pids, None)"
| "scan_proc h matches (IterError m # entries) pids = (pids, Some (filesystem_error m))"
| "scan_proc h matches (Entry filename is_dir # entries) pids =
     (if \<not> is_dir then scan_proc h matches entries pids
      else if \<not> list_all isdigit filename then scan_proc h matches entries pids
      else
        (case stoi filename of
           Inl e \<Rightarrow> (pids, Some e)
         | Inr pid \<Rightarrow>
             (case isValidPID_exn h pid of
                Inl e \<Rightarrow> (pids, Some e)
              | Inr valid \<Rightarrow>
                  if \<not> valid then scan_proc h matches entries pids
                  else
                    (case comm_line h filename of
                       None \<Rightarrow> scan_proc h matches entries pids
                     | Some comm \<Rightarrow>
                         if matches comm then scan_proc h matches entries (pids @ [pid])
                         else scan_proc h matches entries pids))))"

text \<open>
  \<^verbatim>\<open>getProcessIDs\<close>. The regex is built outside the \<^verbatim>\<open>try\<close> block, so its exception
  leaves the function (\<open>Inl\<close>).
\<close>

definition getProcessIDs :: "regex_lib \<Rightarrow> timeline \<Rightarrow> string \<Rightarrow> world \<Rightarrow> exn + (pid_t list \<times> world)" where
  "getProcessIDs rx H pattern w =
     (if \<not> isValidPattern pattern then Inr ([], Logger_log (''Invalid pattern: '' @ pattern) True w)
      else
        (case rx pattern of
           Inl m \<Rightarrow> Inl (regex_error m)
         | Inr matches \<Rightarrow>
             (case scan_proc (H (tick w)) matches (proc_dir (H (tick w))) [] of
                (pids, None) \<Rightarrow> Inr (pids, w\<lparr>tick := tick w + 1\<rparr>)
              | (pids, Some e) \<Rightarrow>
                  Inr (pids, Logger_log (''Error in getProcessIDs: '' @ what e) True
                               (w\<lparr>tick := tick w + 1\<rparr>)))))"

text \<open>The loop of \<^verbatim>\<open>getThreadIDs\<close> over the entries of \<^verbatim>\<open>/proc/<pid>/task\<close>.\<close>

fun scan_task :: "host \<Rightarrow> dir_item list \<Rightarrow> pid_t list \<Rightarrow> pid_t list \<times> exn option" where
  "scan_task h [] tids = (tids, None)"
| "scan_task h (IterError m # entries) tids = (tids, Some (filesystem_error m))"
| "scan_task h (Entry tidStr is_dir # entries) tids =
     (if \<not> is_dir then scan_task h entries tids
      else if list_all isdigit tidStr then
        (case stoi tidStr of
           Inl e \<Rightarrow> (tids, Some e)
         | Inr tid \<Rightarrow>
             (case isValidPID_exn h tid of
                Inl e \<Rightarrow> (tids, Some e)
              | Inr valid \<Rightarrow>
                  if valid then scan_task h entries (tids @ [tid])
                  else scan_task h entries tids))
      else scan_task h entries tids)"

definition getThreadIDs :: "timeline \<Rightarrow> pid_t \<Rightarrow> world \<Rightarrow> pid_t list \<times> world" where
  "getThreadIDs H pid w =
     (if \<not> isValidPID (H (tick w)) pid then ([], w\<lparr>tick := tick w + 1\<rparr>)
      else
        (case scan_task (H (tick w)) (task_dir (H (tick w)) pid) [] of
           (tids, None) \<Rightarrow> (tids, w\<lparr>tick := tick w + 1\<rparr>)
         | (tids, Some e) \<Rightarrow>
             (tids, Logger_log (''Error in getThreadIDs: '' @ what e) True (w\<lparr>tick := tick w + 1\<rparr>))))"

section \<open>Calls that raise\<close>

text \<open>
  The functions of the section on the \<^verbatim>\<open>SyscallOptimizer\<close> and \<open>getThreadIDs\<close> above say what
  a call returns. Those calls can also be left by the \<^verbatim>\<open>filesystem_error\<close> of \<^verbatim>\<open>isValidPID\<close>;
  this section has them with that outcome (\<open>Inl\<close>), and agreeing with the above whenever
  they return.
\<close>

text \<open>
  A \<^verbatim>\<open>...Direct\<close> call in full. Each of the four opens with \<^verbatim>\<open>isValidPID(tid)\<close>, outside any
  \<^verbatim>\<open>try\<close>: when that raises, so does the call; when it returns, the call goes on as \<open>direct\<close>
  says.
\<close>

definition direct_exn :: "pid_t \<Rightarrow> (host \<Rightarrow> OpResult) \<Rightarrow> host \<Rightarrow> exn + OpResult" where
  "direct_exn tid direct h =
     (case isValidPID_exn h tid of
        Inl e \<Rightarrow> Inl e
      | Inr valid \<Rightarrow> Inr (direct h))"

text \<open>The retry loop when the \<^verbatim>\<open>...Direct\<close> call can raise: the exception leaves the loop.\<close>

function retry_loop_exn ::
  "(host \<Rightarrow> exn + OpResult) \<Rightarrow> event \<Rightarrow> timeline \<Rightarrow> int \<Rightarrow> world \<Rightarrow> exn + (bool \<times> world)" where
  "retry_loop_exn direct ev H retry w =
     (if retry < MAX_RETRIES then
        (case direct (H (tick w)) of
           Inl e \<Rightarrow> Inl e
         | Inr result \<Rightarrow>
             if success result
             then Inr (True, w\<lparr>tick := tick w + 1, events := events w @ [ev]\<rparr>)
             else retry_loop_exn direct ev H (retry + 1)
                    (if retry < MAX_RETRIES - 1
                     then sleep_for RETRY_DELAY_MS (w\<lparr>tick := tick w + 1, events := events w @ [ev]\<rparr>)
                     else w\<lparr>tick := tick w + 1, events := events w @ [ev]\<rparr>))
      else Inr (False, w))"
  by pat_completeness auto
termination
  by (relation "measure (\<lambda>(direct, ev, H, retry, w). nat (MAX_RETRIES - retry))") auto

declare retry_loop_exn.simps [simp del]

definition setAffinity_exn :: "timeline \<Rightarrow> pid_t \<Rightarrow> cpu_set_t \<Rightarrow> world \<Rightarrow> exn + (bool \<times> world)" where
  "setAffinity_exn H tid cpus =
     retry_loop_exn (direct_exn tid (\<lambda>h. setAffinityDirect h tid cpus)) (Call Affinity tid) H 0"

definition setNice_exn :: "timeline \<Rightarrow> pid_t \<Rightarrow> int \<Rightarrow> world \<Rightarrow> exn + (bool \<times> world)" where
  "setNice_exn H tid v =
     retry_loop_exn (direct_exn tid (\<lambda>h. setNiceDirect h tid v)) (Call Nice tid) H 0"



text \<open>
  \<^verbatim>\<open>getThreadIDs\<close> in full: its opening \<^verbatim>\<open>isValidPID(pid)\<close> is outside the \<^verbatim>\<open>try\<close> block.
\<close>

definition getThreadIDs_exn :: "timeline \<Rightarrow> pid_t \<Rightarrow> world \<Rightarrow> exn + (pid_t list \<times> world)" where
  "getThreadIDs_exn H pid w =
     (case isValidPID_exn (H (tick w)) pid of
        Inl e \<Rightarrow> Inl e
      | Inr valid \<Rightarrow> Inr (getThreadIDs H pid w))"

section \<open>StatsTracker\<close>

text \<open>\<^verbatim>\<open>std::atomic<int>\<close>: 32 bits, and \<^verbatim>\<open>++\<close> wraps around (two's complement).\<close>

record StatsTracker =
  successCount :: "32 word"
  failureCount :: "32 word"
  totalOps :: "32 word"

definition StatsTracker_init :: StatsTracker where
  "StatsTracker_init = \<lparr>successCount = 0, failureCount = 0, totalOps = 0\<rparr>"

definition recordSuccess :: "StatsTracker \<Rightarrow> StatsTracker" where
  "recordSuccess st = st\<lparr>successCount := successCount st + 1, totalOps := totalOps st + 1\<rparr>"

definition recordFailure :: "StatsTracker \<Rightarrow> StatsTracker" where
  "recordFailure st = st\<lparr>failureCount := failureCount st + 1, totalOps := totalOps st + 1\<rparr>"

definition report :: "StatsTracker \<Rightarrow> world \<Rightarrow> world" where
  "report st w =
     Logger_log (''Operations: '' @ to_string (sint (totalOps st)) @
                 '' | Success: '' @ to_string (sint (successCount st)) @
                 '' | Failed: '' @ to_string (sint (failureCount st))) False w"

text \<open>A sequence of calls on a tracker.\<close>

datatype stats_call = RecordSuccess | RecordFailure

fun stats_step :: "StatsTracker \<Rightarrow> stats_call \<Rightarrow> StatsTracker" where
  "stats_step st RecordSuccess = recordSuccess st"
| "stats_step st RecordFailure = recordFailure st"

definition stats_run :: "stats_call list \<Rightarrow> StatsTracker" where
  "stats_run calls = foldl stats_step StatsTracker_init calls"

section \<open>TaskOptimizer\<close>

text \<open>A \<^verbatim>\<open>std::function<bool(pid_t)>\<close>: it returns a truth value, or raises.\<close>

type_synonym tuning_op = "pid_t \<Rightarrow> world \<Rightarrow> exn + (bool \<times> world)"

text \<open>
  The body of the inner loop of \<^verbatim>\<open>optimizePattern\<close>, for one thread. Nothing in
  \<^verbatim>\<open>optimizePattern\<close> catches: an exception of the optimizer or of \<^verbatim>\<open>getThreadIDs\<close> leaves
  it (\<open>Inl\<close>), and the tracker, a local of \<^verbatim>\<open>optimizeSystem\<close>, is gone with it.
\<close>

definition optimize_thread ::
  "tuning_op \<Rightarrow> string \<Rightarrow> pid_t \<Rightarrow> StatsTracker \<times> world \<Rightarrow> exn + (StatsTracker \<times> world)" where
  "optimize_thread optimizer opName tid s =
     (case s of (st, w) \<Rightarrow>
        (case optimizer tid w of
           Inl e \<Rightarrow> Inl e
         | Inr (True, w1) \<Rightarrow> Inr (recordSuccess st, w1)
         | Inr (False, w1) \<Rightarrow>
             Inr (recordFailure st,
                  Logger_log (''Failed '' @ opName @ '' for TID '' @ to_string tid) True w1)))"

text \<open>\<^verbatim>\<open>for (pid_t tid : tids)\<close>\<close>

fun for_tids ::
  "tuning_op \<Rightarrow> string \<Rightarrow> pid_t list \<Rightarrow> StatsTracker \<times> world \<Rightarrow> exn + (StatsTracker \<times> world)" where
  "for_tids optimizer opName [] s = Inr s"
| "for_tids optimizer opName (tid # tids) s =
     (case optimize_thread optimizer opName tid s of
        Inl e \<Rightarrow> Inl e
      | Inr s1 \<Rightarrow> for_tids optimizer opName tids s1)"

text \<open>\<^verbatim>\<open>for (pid_t pid : pids)\<close>\<close>

fun for_pids ::
  "timeline \<Rightarrow> tuning_op \<Rightarrow> string \<Rightarrow> pid_t list \<Rightarrow> StatsTracker \<times> world \<Rightarrow>
   exn + (StatsTracker \<times> world)" where
  "for_pids H optimizer opName [] s = Inr s"
| "for_pids H optimizer opName (pid # pids) s =
     (case s of (st, w) \<Rightarrow>
        (case getThreadIDs_exn H pid w of
           Inl e \<Rightarrow> Inl e
         | Inr (tids, w1) \<Rightarrow>
             (case for_tids optimizer opName tids (st, w1) of
                Inl e \<Rightarrow> Inl e
              | Inr s1 \<Rightarrow> for_pids H optimizer opName pids s1)))"

definition optimizePattern ::
  "regex_lib \<Rightarrow> timeline \<Rightarrow> string \<Rightarrow> tuning_op \<Rightarrow> string \<Rightarrow> StatsTracker \<times> world \<Rightarrow> exn + (StatsTracker \<times> world)" where
  "optimizePattern rx H pattern optimizer opName s =
     (case s of (st, w) \<Rightarrow>
        (case getProcessIDs rx H pattern w of
           Inl e \<Rightarrow> Inl e
         | Inr (pids, w1) \<Rightarrow>
             if pids = [] then Inr (st, Logger_log (''No processes found for: '' @ pattern) False w1)
             else for_pids H optimizer opName pids (st, w1)))"

subsection \<open>The tuning operations of \<^verbatim>\<open>optimizeSystem\<close>\<close>

text \<open>
  \<^verbatim>\<open>a && b\<close> on calls that change the world: \<open>b\<close> runs only when \<open>a\<close> returned true, in the
  world \<open>a\<close> left; an exception of \<open>a\<close> leaves the expression.
\<close>

definition and_then ::
  "(world \<Rightarrow> exn + (bool \<times> world)) \<Rightarrow> (world \<Rightarrow> exn + (bool \<times> world)) \<Rightarrow> world \<Rightarrow>
   exn + (bool \<times> world)" where
  "and_then a b w =
     (case a w of
        Inl e \<Rightarrow> Inl e
      | Inr (True, w1) \<Rightarrow> b w1
      | Inr (False, w1) \<Rightarrow> Inr (False, w1))"

text \<open>An argument that is a call, as in \<^verbatim>\<open>setAffinity(tid, CPUTopology::getPerfMask())\<close>.\<close>

definition with_mask ::
  "(world \<Rightarrow> cpu_set_t \<times> world) \<Rightarrow> (cpu_set_t \<Rightarrow> world \<Rightarrow> exn + (bool \<times> world)) \<Rightarrow> world \<Rightarrow>
   exn + (bool \<times> world)" where
  "with_mask get f w = (case get w of (cpus, w1) \<Rightarrow> f cpus w1)"

definition high_prio :: "timeline \<Rightarrow> tuning_op" where
  "high_prio H tid =
     and_then (setNice_exn H tid (- 10)) (with_mask (getPerfMask H) (setAffinity_exn H tid))"



text \<open>The \<^verbatim>\<open>...Direct\<close> calls recorded in a list of events, in order.\<close>

fun calls :: "event list \<Rightarrow> (attr \<times> pid_t) list" where
  "calls [] = []"
| "calls (Call a tid # es) = (a, tid) # calls es"
| "calls (Sleep ms # es) = calls es"

subsection \<open>What a pass is to do\<close>




section \<open>Example hosts\<close>

text \<open>
  A host with one process, 1234 (\<^verbatim>\<open>zygote\<close>), of two threads, on which every scheduling
  call succeeds.
\<close>

definition quiet_host :: host where
  "quiet_host =
     \<lparr>proc_exists = (\<lambda>pid. pid = 1234 \<or> pid = 1235),
      exists_error = (\<lambda>pid. None),
      proc_dir = [Entry ''1234'' True, Entry ''self'' True, Entry ''cpuinfo'' False],
      task_dir = (\<lambda>pid. if pid = 1234 then [Entry ''1234'' True, Entry ''1235'' True] else []),
      comm_line = (\<lambda>name. if name = ''1234'' then Some ''zygote'' else None),
      sched_setaffinity = (\<lambda>tid cpus. (0, None)),
      setpriority = (\<lambda>tid v. (0, None)),
      sched_setscheduler = (\<lambda>tid policy priority. (0, None)),
      ioprio_set = (\<lambda>which who ioprio. (0, None)),
      errno0 = 0,
      strerror = (\<lambda>e. ''Operation not permitted''),
      cpufreq = big_little\<rparr>"

text \<open>The same host when every scheduling call is refused with \<^verbatim>\<open>EPERM\<close> (1).\<close>

definition denying_host :: host where
  "denying_host =
     quiet_host\<lparr>sched_setaffinity := (\<lambda>tid cpus. (- 1, Some 1)),
                setpriority := (\<lambda>tid v. (- 1, Some 1)),
                sched_setscheduler := (\<lambda>tid policy priority. (- 1, Some 1)),
                ioprio_set := (\<lambda>which who ioprio. (- 1, Some 1))\<rparr>"

text \<open>The same host when \<^verbatim>\<open>setpriority\<close> returns -1 and stores no \<^verbatim>\<open>errno\<close>.\<close>

definition borderline_host :: host where
  "borderline_host = quiet_host\<lparr>setpriority := (\<lambda>tid v. (- 1, None))\<rparr>"

definition always_quiet :: timeline where
  "always_quiet t = quiet_host"







definition world0 :: world where
  "world0 = \<lparr>tick = 0, events = [], log = [], perf_info = None, eff_info = None, all_info = None\<rparr>"

text \<open>A regex library on which a pattern matches the names that contain it.\<close>

fun contains :: "string \<Rightarrow> string \<Rightarrow> bool" where
  "contains [] p = (p = [])"
| "contains (c # cs) p = (take (length p) (c # cs) = p \<or> contains cs p)"

definition substring_regex :: regex_lib where
  "substring_regex pattern = Inr (\<lambda>comm. contains comm pattern)"

section \<open>Properties of the Sanitizer\<close>

lemma find_first_of_None: "find_first_of s chars = None \<longleftrightarrow> set s \<inter> set chars = {}"
  by (induction s) (auto split: option.splits)

text \<open>
  C4. \<open>isValidPattern\<close> answers true exactly for the inputs shorter than 100 characters
  in which none of \<^verbatim>\<open>; & | ` $ ( ) { } [ ] < >\<close> occurs.
\<close>

theorem isValidPattern_iff:
  "isValidPattern p \<longleftrightarrow>
     length p < 100 \<and>
     (\<forall>c \<in> set p. c \<notin> {CHR '';'', CHR ''&'', CHR ''|'', CHR 0x60, CHR ''$'', CHR ''('', CHR '')'',
                         CHR ''{'', CHR ''}'', CHR ''['', CHR '']'', CHR ''<'', CHR ''>''})"
  by (auto simp: isValidPattern_def find_first_of_None forbidden_chars_def)

theorem isValidPattern_iff_witness:
  "isValidPattern ''zygote'' \<and> \<not> isValidPattern ''a;b'' \<and> \<not> isValidPattern (replicate 100 CHR ''a'')"
  using isValidPattern_iff [of "''zygote''"] isValidPattern_iff [of "''a;b''"]
    isValidPattern_iff [of "replicate 100 CHR ''a''"]
  by simp

section \<open>Properties of the CPU topology\<close>

lemma detect_loop_opened:
  "i + n \<le> 16 \<Longrightarrow> (\<forall>j. i \<le> j \<and> j < i + n \<longrightarrow> (\<exists>v. cpu j = Opened v)) \<Longrightarrow>
   detect_loop cpu i info pr =
     detect_loop cpu (i + n)
       (info\<lparr>perfCores := perfCores info @ filter (\<lambda>j. \<exists>v. cpu j = Opened v \<and> v > 2000000) [i..<i + n],
        effCores := effCores info @ filter (\<lambda>j. \<exists>v. cpu j = Opened v \<and> v \<le> 2000000) [i..<i + n],
        totalCores := totalCores info + n\<rparr>)
       (pr @ [i..<i + n])"
proof (induction n arbitrary: i info pr)
  case 0
  then show ?case by simp
next
  case (Suc n)
  from Suc.prems obtain v where v: "cpu i = Opened v" by force
  have i16: "i < 16" using Suc.prems by simp
  have rest: "\<forall>j. Suc i \<le> j \<and> j < Suc i + n \<longrightarrow> (\<exists>v. cpu j = Opened v)"
    using Suc.prems by simp
  have len: "Suc i + n \<le> 16" using Suc.prems by simp
  have upt: "[i..<Suc (i + n)] = i # [Suc i..<Suc (i + n)]"
    by (rule upt_conv_Cons) simp
  define info2 where "info2 =
     (if v > 2000000
      then info\<lparr>totalCores := totalCores info + 1, perfCores := perfCores info @ [i]\<rparr>
      else info\<lparr>totalCores := totalCores info + 1, effCores := effCores info @ [i]\<rparr>)"
  have step: "detect_loop cpu i info pr = detect_loop cpu (Suc i) info2 (pr @ [i])"
    by (subst detect_loop.simps) (simp add: i16 v info2_def)
  note ih = Suc.IH [OF len rest, of info2 "pr @ [i]"]
  show ?case
    unfolding step ih
    by (simp add: upt v info2_def del: upt_Suc)
qed



lemma detect_loop_prefix:
  assumes "k \<le> 16" and "\<forall>j<k. \<exists>v. cpu j = Opened v"
  shows "detect_loop cpu 0 \<lparr>perfCores = [], effCores = [], totalCores = 0\<rparr> [] =
         detect_loop cpu k
           \<lparr>perfCores = filter (\<lambda>j. \<exists>v. cpu j = Opened v \<and> v > 2000000) [0..<k],
            effCores = filter (\<lambda>j. \<exists>v. cpu j = Opened v \<and> v \<le> 2000000) [0..<k],
            totalCores = k\<rparr> [0..<k]"
  using detect_loop_opened [of 0 k cpu "\<lparr>perfCores = [], effCores = [], totalCores = 0\<rparr>" "[]"] assms
  by simp

lemma detectCores_complete:
  assumes "k \<le> 16" and "\<forall>j<k. \<exists>v. cpu j = Opened v" and "k < 16 \<longrightarrow> cpu k = NotOpen"
  shows "detectCores cpu =
         (\<lparr>perfCores = filter (\<lambda>j. \<exists>v. cpu j = Opened v \<and> v > 2000000) [0..<k],
           effCores = filter (\<lambda>j. \<exists>v. cpu j = Opened v \<and> v \<le> 2000000) [0..<k],
           totalCores = k\<rparr>, [], [0..<min (Suc k) 16])"
proof (cases "k < 16")
  case True
  with assms(3) have "cpu k = NotOpen" by simp
  with True show ?thesis
    unfolding detectCores_def detect_loop_prefix [OF assms(1,2)]
    by (subst detect_loop.simps) simp
next
  case False
  with assms(1) have "k = 16" by simp
  then show ?thesis
    unfolding detectCores_def detect_loop_prefix [OF assms(1,2)]
    by (subst detect_loop.simps) simp
qed

lemma detectCores_thrown:
  assumes "k < 16" and "\<forall>j<k. \<exists>v. cpu j = Opened v" and "cpu k = Throws"
  shows "detectCores cpu = (default_topology, [topology_warning], [0..<Suc k])"
proof -
  have k16: "k \<le> 16" using assms(1) by simp
  show ?thesis
    unfolding detectCores_def detect_loop_prefix [OF k16 assms(2)]
    using assms(1,3) by (subst detect_loop.simps) simp
qed

lemma probing_ends:
  fixes cpu :: sysfs
  shows "\<exists>k\<le>16. (\<forall>j<k. \<exists>v. cpu j = Opened v) \<and> (k < 16 \<longrightarrow> cpu k = NotOpen \<or> cpu k = Throws)"
proof (cases "\<forall>j<16. \<exists>v. cpu j = Opened v")
  case True
  then show ?thesis by (intro exI [of _ 16]) simp
next
  case False
  then obtain j where j: "j < 16" "\<not> (\<exists>v. cpu j = Opened v)" by blast
  define k where "k = (LEAST j. \<not> (\<exists>v. cpu j = Opened v))"
  have k1: "\<not> (\<exists>v. cpu k = Opened v)"
    unfolding k_def using j(2) by (rule LeastI)
  have k2: "k \<le> j"
    unfolding k_def using j(2) by (rule Least_le)
  have k3: "\<forall>i<k. \<exists>v. cpu i = Opened v"
    unfolding k_def using not_less_Least by blast
  from k1 have "cpu k = NotOpen \<or> cpu k = Throws"
    by (cases "cpu k") simp_all
  with k2 k3 j(1) show ?thesis by (intro exI [of _ k]) simp
qed

lemma fold_CPU_SET: "\<forall>c \<in> set cs. c < 1024 \<Longrightarrow> fold CPU_SET cs m = set cs \<union> m"
  by (induction cs arbitrary: m) (auto simp: CPU_SET_def)

text \<open>
  C1, at the input where the code departs from it. With the attribute of core 0 unreadable
  \<open>detectCores\<close> does not reach its fallback: the loop ends at index 0 without an exception,
  the topology it returns is empty (\<open>totalCores = 0\<close>, all three masks empty) and not the
  default, and no warning is logged.
\<close>

theorem detectCores_unreadable_core0:
  "no_cpufreq 0 = NotOpen \<and>
   detectCores no_cpufreq = (\<lparr>perfCores = [], effCores = [], totalCores = 0\<rparr>, [], [0]) \<and>
   fst (detectCores no_cpufreq) \<noteq> default_topology \<and>
   fst (snd (detectCores no_cpufreq)) \<noteq> [topology_warning] \<and>
   perfMask (fst (detectCores no_cpufreq)) = {} \<and>
   effMask (fst (detectCores no_cpufreq)) = {} \<and>
   allMask (fst (detectCores no_cpufreq)) = {}"
  by (simp add: detectCores_def no_cpufreq_def detect_loop.simps default_topology_def
      perfMask_def effMask_def allMask_def CPU_ZERO_def)

text \<open>
  C2, as amended. When no exception leaves the loop, \<open>detectCores\<close> probes the indices
  0, 1, 2, ... in order and stops at the first index \<open>m\<close> whose attribute cannot be opened
  or after index 15, whichever comes first: \<open>totalCores\<close> is \<open>min m 16\<close>.
\<close>

theorem detectCores_probing:
  fixes cpu :: sysfs
  assumes "\<forall>j < min m 16. \<exists>v. cpu j = Opened v" and "m < 16 \<longrightarrow> cpu m = NotOpen"
  shows "totalCores (fst (detectCores cpu)) = min m 16 \<and>
         snd (snd (detectCores cpu)) = [0..<min (Suc m) 16]"
  using detectCores_complete [of "min m 16" cpu] assms
  by (auto simp: min_def)

theorem detectCores_probing_witness:
  "totalCores (fst (detectCores big_little)) = 8 \<and>
   snd (snd (detectCores big_little)) = [0, 1, 2, 3, 4, 5, 6, 7, 8] \<and>
   totalCores (fst (detectCores seventeen_cores)) = 16 \<and>
   snd (snd (detectCores seventeen_cores)) = [0, 1, 2, 3, 4, 5, 6, 7, 8, 9, 10, 11, 12, 13, 14, 15]"
  using detectCores_probing [of 8 big_little] detectCores_probing [of 16 seventeen_cores]
  by (simp add: big_little_def seventeen_cores_def upt_rec)

text \<open>
  The claim C2 as written fails on a machine with 17 cores: the loop bound cuts the probing
  short at 16, and core 16 is never probed.
\<close>

theorem detectCores_sixteen_bound_counterexample:
  "map seventeen_cores [0..<18] = replicate 17 (Opened 1800000) @ [NotOpen] \<and>
   totalCores (fst (detectCores seventeen_cores)) = 16 \<and>
   16 \<notin> set (snd (snd (detectCores seventeen_cores)))"
  by (simp add: detectCores_def seventeen_cores_def detect_loop.simps upt_rec eval_nat_numeral)

lemma masks_of_default:
  "set (perfCores default_topology) \<inter> set (effCores default_topology) = {}"
  "allMask default_topology = perfMask default_topology \<union> effMask default_topology"
  "card (allMask default_topology) = totalCores default_topology"
proof -
  have all: "allMask default_topology = {0..<8}"
    by (simp add: allMask_def default_topology_def fold_CPU_SET CPU_ZERO_def)
  have perf: "perfMask default_topology = {4, 5, 6, 7}"
    by (auto simp: perfMask_def default_topology_def CPU_SET_def CPU_ZERO_def)
  have eff: "effMask default_topology = {0, 1, 2, 3}"
    by (auto simp: effMask_def default_topology_def CPU_SET_def CPU_ZERO_def)
  show "set (perfCores default_topology) \<inter> set (effCores default_topology) = {}"
    by (simp add: default_topology_def)
  show "allMask default_topology = perfMask default_topology \<union> effMask default_topology"
    unfolding all perf eff by auto
  show "card (allMask default_topology) = totalCores default_topology"
    unfolding all by (simp add: default_topology_def)
qed

lemma masks_of_probed:
  fixes cpu :: sysfs
  assumes k: "k \<le> 16" and opened: "\<forall>j<k. \<exists>v. cpu j = Opened v"
    and info: "info = \<lparr>perfCores = filter (\<lambda>j. \<exists>v. cpu j = Opened v \<and> v > 2000000) [0..<k],
                       effCores = filter (\<lambda>j. \<exists>v. cpu j = Opened v \<and> v \<le> 2000000) [0..<k],
                       totalCores = k\<rparr>"
  shows "set (perfCores info) \<inter> set (effCores info) = {}"
    and "allMask info = perfMask info \<union> effMask info"
    and "card (allMask info) = totalCores info"
proof -
  have all: "allMask info = {0..<k}"
    using k by (simp add: allMask_def info fold_CPU_SET CPU_ZERO_def)
  have perf: "perfMask info = {j. j < k \<and> (\<exists>v. cpu j = Opened v \<and> v > 2000000)}"
    using k by (auto simp: perfMask_def info fold_CPU_SET CPU_ZERO_def)
  have eff: "effMask info = {j. j < k \<and> (\<exists>v. cpu j = Opened v \<and> v \<le> 2000000)}"
    using k by (auto simp: effMask_def info fold_CPU_SET CPU_ZERO_def)
  show "set (perfCores info) \<inter> set (effCores info) = {}"
    by (auto simp: info)
  show "allMask info = perfMask info \<union> effMask info"
    unfolding all perf eff using opened by force
  show "card (allMask info) = totalCores info"
    unfolding all by (simp add: info)
qed

text \<open>
  C6, as amended. In every topology \<open>detectCores\<close> returns, the performance and the
  efficiency set are disjoint and the all-cores mask is their union, of size \<open>totalCores\<close>.
  When the fallback was not taken (no warning logged), each core whose frequency was read
  is in exactly one of the two sets: the performance set when the frequency is above
  2,000,000, the efficiency set otherwise.
\<close>

theorem detectCores_partition:
  fixes cpu :: sysfs
  assumes run: "detectCores cpu = (info, lines, probed)"
  shows "set (perfCores info) \<inter> set (effCores info) = {} \<and>
         allMask info = perfMask info \<union> effMask info \<and>
         card (allMask info) = totalCores info \<and>
         (lines = [] \<longrightarrow>
            (\<forall>i v. i \<in> set probed \<and> cpu i = Opened v \<longrightarrow>
               (if v > 2000000 then i \<in> set (perfCores info) \<and> i \<notin> set (effCores info)
                else i \<in> set (effCores info) \<and> i \<notin> set (perfCores info))))"
proof -
  obtain k where k: "k \<le> 16" and opened: "\<forall>j<k. \<exists>v. cpu j = Opened v"
    and last: "k < 16 \<longrightarrow> cpu k = NotOpen \<or> cpu k = Throws"
    using probing_ends [of cpu] by blast
  show ?thesis
  proof (cases "k < 16 \<and> cpu k = Throws")
    case True
    then have "detectCores cpu = (default_topology, [topology_warning], [0..<Suc k])"
      using opened by (intro detectCores_thrown) simp_all
    with run have "info = default_topology" and "lines \<noteq> []" by auto
    then show ?thesis using masks_of_default by simp
  next
    case False
    with last have "k < 16 \<longrightarrow> cpu k = NotOpen" by blast
    from detectCores_complete [OF k opened this] run
    have info: "info = \<lparr>perfCores = filter (\<lambda>j. \<exists>v. cpu j = Opened v \<and> v > 2000000) [0..<k],
                        effCores = filter (\<lambda>j. \<exists>v. cpu j = Opened v \<and> v \<le> 2000000) [0..<k],
                        totalCores = k\<rparr>"
      and probed: "probed = [0..<min (Suc k) 16]" by simp_all
    have cls: "\<forall>i v. i \<in> set probed \<and> cpu i = Opened v \<longrightarrow>
               (if v > 2000000 then i \<in> set (perfCores info) \<and> i \<notin> set (effCores info)
                else i \<in> set (effCores info) \<and> i \<notin> set (perfCores info))"
    proof (intro allI impI)
      fix i v
      assume iv: "i \<in> set probed \<and> cpu i = Opened v"
      have "i < k"
      proof (rule ccontr)
        assume "\<not> i < k"
        with iv probed have "i = k" and "k < 16" by (auto simp: min_def split: if_splits)
        with \<open>k < 16 \<longrightarrow> cpu k = NotOpen\<close> iv show False by simp
      qed
      with iv show "if v > 2000000 then i \<in> set (perfCores info) \<and> i \<notin> set (effCores info)
                else i \<in> set (effCores info) \<and> i \<notin> set (perfCores info)"
        by (simp add: info)
    qed
    show ?thesis
      using masks_of_probed [OF k opened info] cls by blast
  qed
qed

theorem detectCores_partition_witness:
  "detectCores big_little =
     (\<lparr>perfCores = [4, 5, 6, 7], effCores = [0, 1, 2, 3], totalCores = 8\<rparr>, [],
      [0, 1, 2, 3, 4, 5, 6, 7, 8]) \<and>
   set [4, 5, 6, 7] \<inter> set [0, 1, 2, 3 :: nat] = {} \<and>
   card (allMask \<lparr>perfCores = [4, 5, 6, 7], effCores = [0, 1, 2, 3], totalCores = 8\<rparr>) = 8 \<and>
   big_little 4 = Opened 2400000 \<and> 4 \<in> set [4, 5, 6, 7 :: nat] \<and> 4 \<notin> set [0, 1, 2, 3 :: nat]"
proof -
  have run: "detectCores big_little =
      (\<lparr>perfCores = [4, 5, 6, 7], effCores = [0, 1, 2, 3], totalCores = 8\<rparr>, [],
       [0, 1, 2, 3, 4, 5, 6, 7, 8])"
    by (simp add: detectCores_def big_little_def detect_loop.simps)
  have four: "4 \<in> set [0, 1, 2, 3, 4, 5, 6, 7, 8 :: nat] \<and> big_little 4 = Opened 2400000"
    by (simp add: big_little_def)
  note part = detectCores_partition [OF run]
  from part have "set [4, 5, 6, 7] \<inter> set [0, 1, 2, 3 :: nat] = {}"
    by simp
  moreover from part [THEN conjunct2, THEN conjunct2, THEN conjunct1]
  have "card (allMask \<lparr>perfCores = [4, 5, 6, 7], effCores = [0, 1, 2, 3], totalCores = 8\<rparr>) = 8"
    by simp
  moreover from part four
  have "4 \<in> set [4, 5, 6, 7 :: nat] \<and> 4 \<notin> set [0, 1, 2, 3 :: nat]"
    by simp
  ultimately show ?thesis using run four by blast
qed

text \<open>
  The claim C6 as written fails for the fallback topology: core 0 was probed with a
  frequency above the threshold, and is an efficiency core of the default.
\<close>

theorem detectCores_fallback_partition_counterexample:
  "fast_then_throw 0 = Opened 3000000 \<and>
   0 \<in> set (snd (snd (detectCores fast_then_throw))) \<and>
   0 \<notin> set (perfCores (fst (detectCores fast_then_throw))) \<and>
   0 \<in> set (effCores (fst (detectCores fast_then_throw)))"
  by (simp add: detectCores_def fast_then_throw_def detect_loop.simps default_topology_def)

section \<open>Properties of the StatsTracker\<close>

lemma stats_counts:
  "successCount (foldl stats_step st cs) = successCount st + of_nat (count_list cs RecordSuccess) \<and>
   failureCount (foldl stats_step st cs) = failureCount st + of_nat (count_list cs RecordFailure) \<and>
   totalOps (foldl stats_step st cs) = totalOps st + of_nat (length cs)"
proof (induction cs arbitrary: st)
  case Nil
  then show ?case by simp
next
  case (Cons c cs)
  show ?case
    by (cases c) (simp_all add: Cons.IH recordSuccess_def recordFailure_def)
qed

lemma sint_of_nat_small:
  assumes "n < 2 ^ 31"
  shows "sint (of_nat n :: 32 word) = int n"
proof -
  have "sint (word_of_int (int n) :: 32 word) = signed_take_bit 31 (int n)"
    by (simp only: sint_sbintrunc') simp
  also have "\<dots> = int n"
    using assms by (intro signed_take_bit_int_eq_self) simp_all
  finally show ?thesis by simp
qed

lemma sint_of_nat_mono:
  assumes "m \<le> n" and "n < 2 ^ 31"
  shows "sint (of_nat m :: 32 word) \<le> sint (of_nat n :: 32 word)"
proof -
  have "m < 2 ^ 31" using assms by simp
  then show ?thesis using assms by (simp add: sint_of_nat_small)
qed

lemma count_calls: "count_list cs RecordSuccess + count_list cs RecordFailure = length cs"
proof (induction cs)
  case Nil
  then show ?case by simp
next
  case (Cons c cs)
  then show ?case by (cases c) simp_all
qed

lemma stats_run_counts:
  "successCount (stats_run cs) = of_nat (count_list cs RecordSuccess)"
  "failureCount (stats_run cs) = of_nat (count_list cs RecordFailure)"
  "totalOps (stats_run cs) = of_nat (length cs)"
  using stats_counts [of StatsTracker_init cs]
  by (simp_all add: stats_run_def StatsTracker_init_def)

text \<open>
  C8, as amended. After any sequence of \<open>recordSuccess\<close> and \<open>recordFailure\<close> calls,
  \<open>totalOps\<close> equals \<open>successCount\<close> plus \<open>failureCount\<close> in the 32-bit wrap-around
  arithmetic of the counters. While fewer than \<open>2 ^ 31\<close> calls have been made, the equation
  also holds for the values read as signed integers, and a further call decrements none of
  the three counters.
\<close>

theorem stats_invariant:
  "totalOps (stats_run cs) = successCount (stats_run cs) + failureCount (stats_run cs) \<and>
   (length cs < 2 ^ 31 \<longrightarrow>
      sint (totalOps (stats_run cs)) =
        sint (successCount (stats_run cs)) + sint (failureCount (stats_run cs))) \<and>
   (length (cs @ [c]) < 2 ^ 31 \<longrightarrow>
      sint (successCount (stats_run cs)) \<le> sint (successCount (stats_run (cs @ [c]))) \<and>
      sint (failureCount (stats_run cs)) \<le> sint (failureCount (stats_run (cs @ [c]))) \<and>
      sint (totalOps (stats_run cs)) \<le> sint (totalOps (stats_run (cs @ [c]))))"
proof (intro conjI impI)
  have "of_nat (length cs) = (of_nat (count_list cs RecordSuccess + count_list cs RecordFailure) :: 32 word)"
    by (simp only: count_calls)
  then show "totalOps (stats_run cs) = successCount (stats_run cs) + failureCount (stats_run cs)"
    by (simp add: stats_run_counts)
next
  assume len: "length cs < 2 ^ 31"
  have s: "count_list cs RecordSuccess < 2 ^ 31" and f: "count_list cs RecordFailure < 2 ^ 31"
    using count_calls [of cs] len by linarith+
  show "sint (totalOps (stats_run cs)) =
        sint (successCount (stats_run cs)) + sint (failureCount (stats_run cs))"
    using count_calls [of cs]
    by (simp add: stats_run_counts sint_of_nat_small [OF len] sint_of_nat_small [OF s]
        sint_of_nat_small [OF f])
next
  assume len: "length (cs @ [c]) < 2 ^ 31"
  then have len0: "length cs < 2 ^ 31" by simp
  have s: "count_list cs RecordSuccess < 2 ^ 31" and f: "count_list cs RecordFailure < 2 ^ 31"
    using count_calls [of cs] len0 by linarith+
  have s1: "count_list (cs @ [c]) RecordSuccess < 2 ^ 31"
    and f1: "count_list (cs @ [c]) RecordFailure < 2 ^ 31"
    using count_calls [of "cs @ [c]"] len by linarith+
  have mono: "count_list cs x \<le> count_list (cs @ [c]) x" for x
    by (induction cs) simp_all
  show "sint (successCount (stats_run cs)) \<le> sint (successCount (stats_run (cs @ [c])))"
    unfolding stats_run_counts by (rule sint_of_nat_mono [OF mono s1])
  show "sint (failureCount (stats_run cs)) \<le> sint (failureCount (stats_run (cs @ [c])))"
    unfolding stats_run_counts by (rule sint_of_nat_mono [OF mono f1])
  show "sint (totalOps (stats_run cs)) \<le> sint (totalOps (stats_run (cs @ [c])))"
    unfolding stats_run_counts by (rule sint_of_nat_mono [OF _ len]) simp
qed

theorem stats_invariant_witness:
  "length [RecordSuccess, RecordFailure] < 2 ^ 31 \<and>
   length ([RecordSuccess, RecordFailure] @ [RecordSuccess]) < 2 ^ 31 \<and>
   stats_run [RecordSuccess, RecordFailure] = \<lparr>successCount = 1, failureCount = 1, totalOps = 2\<rparr> \<and>
   stats_run ([RecordSuccess, RecordFailure] @ [RecordSuccess]) =
     \<lparr>successCount = 2, failureCount = 1, totalOps = 3\<rparr> \<and>
   sint (totalOps (stats_run [RecordSuccess, RecordFailure])) =
     sint (successCount (stats_run [RecordSuccess, RecordFailure])) +
     sint (failureCount (stats_run [RecordSuccess, RecordFailure])) \<and>
   sint (successCount (stats_run [RecordSuccess, RecordFailure])) \<le>
     sint (successCount (stats_run ([RecordSuccess, RecordFailure] @ [RecordSuccess])))"
  using stats_invariant [of "[RecordSuccess, RecordFailure]" RecordSuccess]
  by (simp add: stats_run_def StatsTracker_init_def recordSuccess_def recordFailure_def)

lemma count_list_replicate: "count_list (replicate n x) x = n"
  by (induction n) simp_all

text \<open>
  The claim C8 as written fails at the wrap-around: the call number \<open>2 ^ 31\<close> of
  \<open>recordSuccess\<close> takes \<open>successCount\<close> from \<^verbatim>\<open>INT_MAX\<close> to \<^verbatim>\<open>INT_MIN\<close>.
\<close>

theorem stats_wraparound_counterexample:
  "sint (successCount (stats_run (replicate 2147483647 RecordSuccess @ [RecordSuccess]))) <
   sint (successCount (stats_run (replicate 2147483647 RecordSuccess)))"
proof -
  have a: "successCount (stats_run (replicate 2147483647 RecordSuccess)) = 2147483647"
    unfolding stats_run_counts count_list_replicate by simp
  have b: "successCount (stats_run (replicate 2147483647 RecordSuccess @ [RecordSuccess])) = 2147483648"
    unfolding stats_run_counts count_list_append count_list_replicate by simp
  show ?thesis unfolding a b by simp
qed

section \<open>Properties of the SyscallOptimizer\<close>









text \<open>
  C7. On a valid thread ID the niceness operation reports success exactly when
  \<^verbatim>\<open>setpriority\<close> returns 0 or leaves \<^verbatim>\<open>errno\<close> at the 0 it was reset to, whatever the return
  value then is; it reports failure exactly when the call returns non-zero and stores a
  non-zero \<^verbatim>\<open>errno\<close>.
\<close>

theorem setNiceDirect_liberal:
  assumes "isValidPID h tid"
  shows "(success (setNiceDirect h tid v) \<longleftrightarrow>
            fst (setpriority h tid v) = 0 \<or> errno_after 0 (snd (setpriority h tid v)) = 0) \<and>
         (snd (setpriority h tid v) = None \<longrightarrow> success (setNiceDirect h tid v)) \<and>
         (\<not> success (setNiceDirect h tid v) \<longleftrightarrow>
            fst (setpriority h tid v) \<noteq> 0 \<and> (\<exists>e. snd (setpriority h tid v) = Some e \<and> e \<noteq> 0))"
  using assms
  by (cases "setpriority h tid v")
     (auto simp: setNiceDirect_def errno_after_def split: option.splits)

theorem setNiceDirect_liberal_witness:
  "isValidPID borderline_host 1234 \<and>
   setpriority borderline_host 1234 (- 10) = (- 1, None) \<and>
   success (setNiceDirect borderline_host 1234 (- 10)) \<and>
   isValidPID denying_host 1234 \<and>
   setpriority denying_host 1234 (- 10) = (- 1, Some 1) \<and>
   \<not> success (setNiceDirect denying_host 1234 (- 10))"
proof -
  have v1: "isValidPID borderline_host 1234" and v2: "isValidPID denying_host 1234"
    by (simp_all add: isValidPID_def borderline_host_def denying_host_def quiet_host_def)
  have r1: "setpriority borderline_host 1234 (- 10) = (- 1, None)"
    and r2: "setpriority denying_host 1234 (- 10) = (- 1, Some 1)"
    by (simp_all add: borderline_host_def denying_host_def quiet_host_def)
  show ?thesis
    using setNiceDirect_liberal [OF v1, of "- 10"] setNiceDirect_liberal [OF v2, of "- 10"] v1 v2 r1 r2
    by (simp add: errno_after_def)
qed

section \<open>Properties of ProcessUtils\<close>

lemma isValidPID_exn_returns: "isValidPID_exn h pid = Inr valid \<Longrightarrow> valid = isValidPID h pid"
  by (auto simp: isValidPID_exn_def isValidPID_def split: if_splits option.splits)

lemma scan_proc_step:
  assumes "scan_proc h matches (Entry name is_dir # entries) pids = (pids', x)"
  shows "scan_proc h matches entries pids = (pids', x) \<or>
         pids' = pids \<or>
         (\<exists>pid. is_dir \<and> list_all isdigit name \<and> stoi name = Inr pid \<and> isValidPID h pid \<and>
                scan_proc h matches entries (pids @ [pid]) = (pids', x))"
proof (cases "is_dir \<and> list_all isdigit name")
  case False
  with assms show ?thesis by (cases is_dir) auto
next
  case True
  show ?thesis
  proof (cases "stoi name")
    case (Inl e)
    with assms True show ?thesis by simp
  next
    case (Inr pid)
    show ?thesis
    proof (cases "isValidPID_exn h pid")
      case (Inl e)
      with assms True \<open>stoi name = Inr pid\<close> show ?thesis by simp
    next
      case valid: (Inr valid)
      from isValidPID_exn_returns [OF valid] have v: "valid = isValidPID h pid" .
      show ?thesis
      proof (cases "valid \<and> (\<exists>comm. comm_line h name = Some comm \<and> matches comm)")
        case False
        with assms True \<open>stoi name = Inr pid\<close> valid show ?thesis
          by (cases "comm_line h name") (auto split: if_splits)
      next
        case pushed: True
        with assms True \<open>stoi name = Inr pid\<close> valid
        have "scan_proc h matches entries (pids @ [pid]) = (pids', x)" by (auto split: if_splits)
        with True \<open>stoi name = Inr pid\<close> pushed v show ?thesis by simp
      qed
    qed
  qed
qed

lemma scan_proc_sound:
  "scan_proc h matches entries pids = (pids', x) \<Longrightarrow> pid \<in> set pids' \<Longrightarrow>
   pid \<in> set pids \<or>
   (\<exists>name. Entry name True \<in> set entries \<and> list_all isdigit name \<and> stoi name = Inr pid \<and>
            isValidPID h pid)"
proof (induction entries arbitrary: pids)
  case Nil
  then show ?case by simp
next
  case (Cons item entries)
  show ?case
  proof (cases item)
    case (IterError m)
    with Cons.prems show ?thesis by simp
  next
    case (Entry name is_dir)
    from scan_proc_step [OF Cons.prems(1) [unfolded Entry]]
    consider "scan_proc h matches entries pids = (pids', x)" | "pids' = pids"
      | p where "is_dir" "list_all isdigit name" "stoi name = Inr p" "isValidPID h p"
          "scan_proc h matches entries (pids @ [p]) = (pids', x)"
      by blast
    then show ?thesis
    proof cases
      case 1
      from Cons.IH [OF 1 Cons.prems(2)] show ?thesis by auto
    next
      case 2
      with Cons.prems(2) show ?thesis by simp
    next
      case 3
      from Cons.IH [OF 3(5) Cons.prems(2)] 3(1-4) Entry show ?thesis by auto
    qed
  qed
qed

lemma scan_task_step:
  assumes "scan_task h (Entry name is_dir # entries) tids = (tids', x)"
  shows "scan_task h entries tids = (tids', x) \<or>
         tids' = tids \<or>
         (\<exists>tid. is_dir \<and> list_all isdigit name \<and> stoi name = Inr tid \<and> isValidPID h tid \<and>
                scan_task h entries (tids @ [tid]) = (tids', x))"
proof (cases "is_dir \<and> list_all isdigit name")
  case False
  with assms show ?thesis by (cases is_dir) auto
next
  case True
  show ?thesis
  proof (cases "stoi name")
    case (Inl e)
    with assms True show ?thesis by simp
  next
    case (Inr tid)
    show ?thesis
    proof (cases "isValidPID_exn h tid")
      case (Inl e)
      with assms True \<open>stoi name = Inr tid\<close> show ?thesis by simp
    next
      case valid: (Inr valid)
      from isValidPID_exn_returns [OF valid] have v: "valid = isValidPID h tid" .
      with assms True \<open>stoi name = Inr tid\<close> valid show ?thesis
        by (cases valid) (auto split: if_splits)
    qed
  qed
qed

lemma scan_task_sound:
  "scan_task h entries tids = (tids', x) \<Longrightarrow> tid \<in> set tids' \<Longrightarrow>
   tid \<in> set tids \<or>
   (\<exists>name. Entry name True \<in> set entries \<and> list_all isdigit name \<and> stoi name = Inr tid \<and>
            isValidPID h tid)"
proof (induction entries arbitrary: tids)
  case Nil
  then show ?case by simp
next
  case (Cons item entries)
  show ?case
  proof (cases item)
    case (IterError m)
    with Cons.prems show ?thesis by simp
  next
    case (Entry name is_dir)
    from scan_task_step [OF Cons.prems(1) [unfolded Entry]]
    consider "scan_task h entries tids = (tids', x)" | "tids' = tids"
      | p where "is_dir" "list_all isdigit name" "stoi name = Inr p" "isValidPID h p"
          "scan_task h entries (tids @ [p]) = (tids', x)"
      by blast
    then show ?thesis
    proof cases
      case 1
      from Cons.IH [OF 1 Cons.prems(2)] show ?thesis by auto
    next
      case 2
      with Cons.prems(2) show ?thesis by simp
    next
      case 3
      from Cons.IH [OF 3(5) Cons.prems(2)] 3(1-4) Entry show ?thesis by auto
    qed
  qed
qed

text \<open>
  C10. Every ID returned by \<open>getProcessIDs\<close> or \<open>getThreadIDs\<close> is the number read from a
  directory entry whose name is all digits, and passed \<open>isValidPID\<close> on the host of the
  enumeration; in particular it lies strictly between 0 and 99999.
\<close>

theorem enumerated_ids_valid:
  "(getProcessIDs rx H pattern w = Inr (pids, w') \<longrightarrow>
      (\<forall>pid \<in> set pids.
         (\<exists>name. Entry name True \<in> set (proc_dir (H (tick w))) \<and> list_all isdigit name \<and>
                  stoi name = Inr pid) \<and>
         isValidPID (H (tick w)) pid \<and> 0 < pid \<and> pid < 99999)) \<and>
   (getThreadIDs H p w = (tids, w'') \<longrightarrow>
      (\<forall>tid \<in> set tids.
         (\<exists>name. Entry name True \<in> set (task_dir (H (tick w)) p) \<and> list_all isdigit name \<and>
                  stoi name = Inr tid) \<and>
         isValidPID (H (tick w)) tid \<and> 0 < tid \<and> tid < 99999))"
proof -
  have procs: "(\<exists>name. Entry name True \<in> set (proc_dir (H (tick w))) \<and> list_all isdigit name \<and>
                  stoi name = Inr pid) \<and>
         isValidPID (H (tick w)) pid \<and> 0 < pid \<and> pid < 99999"
    if run: "getProcessIDs rx H pattern w = Inr (pids, w')" and pid: "pid \<in> set pids" for pid
  proof -
    from run pid obtain matches x where
      "scan_proc (H (tick w)) matches (proc_dir (H (tick w))) [] = (pids, x)"
      by (auto simp: getProcessIDs_def split: if_splits sum.splits prod.splits option.splits)
    from scan_proc_sound [OF this pid] show ?thesis
      by (auto simp: isValidPID_def)
  qed
  have threads: "(\<exists>name. Entry name True \<in> set (task_dir (H (tick w)) p) \<and> list_all isdigit name \<and>
                  stoi name = Inr tid) \<and>
         isValidPID (H (tick w)) tid \<and> 0 < tid \<and> tid < 99999"
    if run: "getThreadIDs H p w = (tids, w'')" and tid: "tid \<in> set tids" for tid
  proof -
    from run tid obtain x where
      "scan_task (H (tick w)) (task_dir (H (tick w)) p) [] = (tids, x)"
      by (auto simp: getThreadIDs_def split: if_splits prod.splits option.splits)
    from scan_task_sound [OF this tid] show ?thesis
      by (auto simp: isValidPID_def)
  qed
  show ?thesis
    using procs threads by blast
qed

theorem enumerated_ids_valid_witness:
  "getProcessIDs substring_regex always_quiet ''zygote'' world0 = Inr ([1234], world0\<lparr>tick := 1\<rparr>) \<and>
   getThreadIDs always_quiet 1234 world0 = ([1234, 1235], world0\<lparr>tick := 1\<rparr>) \<and>
   isValidPID (always_quiet (tick world0)) 1234 \<and> (0 :: int) < 1234 \<and> (1234 :: int) < 99999 \<and>
   isValidPID (always_quiet (tick world0)) 1235 \<and> (0 :: int) < 1235 \<and> (1235 :: int) < 99999"
proof -
  have procs: "getProcessIDs substring_regex always_quiet ''zygote'' world0 =
      Inr ([1234], world0\<lparr>tick := 1\<rparr>)"
    by (simp add: getProcessIDs_def substring_regex_def always_quiet_def quiet_host_def world0_def
        isValidPattern_def forbidden_chars_def isdigit_def stoi_def digit_value_def isValidPID_def isValidPID_exn_def)
  have threads: "getThreadIDs always_quiet 1234 world0 = ([1234, 1235], world0\<lparr>tick := 1\<rparr>)"
    by (simp add: getThreadIDs_def always_quiet_def quiet_host_def world0_def
        isdigit_def stoi_def digit_value_def isValidPID_def isValidPID_exn_def)
  note valid = enumerated_ids_valid [of substring_regex always_quiet "''zygote''" world0 "[1234]"
      "world0\<lparr>tick := 1\<rparr>" 1234 "[1234, 1235]" "world0\<lparr>tick := 1\<rparr>"]
  from valid [THEN conjunct1, THEN mp, OF procs]
  have "isValidPID (always_quiet (tick world0)) 1234 \<and> (0 :: int) < 1234 \<and> (1234 :: int) < 99999"
    by simp
  moreover from valid [THEN conjunct2, THEN mp, OF threads]
  have "isValidPID (always_quiet (tick world0)) 1235 \<and> (0 :: int) < 1235 \<and> (1235 :: int) < 99999"
    by simp
  ultimately show ?thesis using procs threads by blast
qed

section \<open>Properties of the TaskOptimizer\<close>

lemma getProcessIDs_logs_errors:
  assumes "getProcessIDs rx H pattern w = Inr (pids, w1)"
  shows "filter (\<lambda>l. \<not> snd l) (log w1) = filter (\<lambda>l. \<not> snd l) (log w) \<and> events w1 = events w"
  using assms
  by (auto simp: getProcessIDs_def Logger_log_def split: if_splits sum.splits prod.splits option.splits)

text \<open>
  C5. When process discovery returns an empty sequence, \<open>optimizePattern\<close> returns with the
  tracker as it was, and its one informational line (\<^verbatim>\<open>No processes found for: ...\<close>) is the
  only informational line the call added to the log. A pattern the Sanitizer rejects is such
  a case: the rejection goes to the error log, the informational line follows.
\<close>

theorem optimizePattern_no_match:
  "(getProcessIDs rx H pattern w = Inr ([], w1) \<longrightarrow>
      optimizePattern rx H pattern optimizer opName (st, w) =
        Inr (st, w1\<lparr>log := log w1 @ [(''No processes found for: '' @ pattern, False)]\<rparr>) \<and>
      filter (\<lambda>l. \<not> snd l) (log w1 @ [(''No processes found for: '' @ pattern, False)]) =
        filter (\<lambda>l. \<not> snd l) (log w) @ [(''No processes found for: '' @ pattern, False)]) \<and>
   (\<not> isValidPattern pattern \<longrightarrow>
      optimizePattern rx H pattern optimizer opName (st, w) =
        Inr (st, w\<lparr>log := log w @ [(''Invalid pattern: '' @ pattern, True),
                                     (''No processes found for: '' @ pattern, False)]\<rparr>))"
proof (intro conjI impI)
  assume run: "getProcessIDs rx H pattern w = Inr ([], w1)"
  then show "optimizePattern rx H pattern optimizer opName (st, w) =
        Inr (st, w1\<lparr>log := log w1 @ [(''No processes found for: '' @ pattern, False)]\<rparr>)"
    by (simp add: optimizePattern_def Logger_log_def)
  from getProcessIDs_logs_errors [OF run]
  show "filter (\<lambda>l. \<not> snd l) (log w1 @ [(''No processes found for: '' @ pattern, False)]) =
        filter (\<lambda>l. \<not> snd l) (log w) @ [(''No processes found for: '' @ pattern, False)]"
    by simp
next
  assume "\<not> isValidPattern pattern"
  then show "optimizePattern rx H pattern optimizer opName (st, w) =
        Inr (st, w\<lparr>log := log w @ [(''Invalid pattern: '' @ pattern, True),
                                     (''No processes found for: '' @ pattern, False)]\<rparr>)"
    by (simp add: optimizePattern_def getProcessIDs_def Logger_log_def)
qed

theorem optimizePattern_no_match_witness:
  "getProcessIDs substring_regex always_quiet ''nonexistent_task_xyz'' world0 =
     Inr ([], world0\<lparr>tick := 1\<rparr>) \<and>
   optimizePattern substring_regex always_quiet ''nonexistent_task_xyz'' (high_prio always_quiet)
       ''high_prio'' (StatsTracker_init, world0) =
     Inr (StatsTracker_init,
          world0\<lparr>tick := 1, log := [(''No processes found for: nonexistent_task_xyz'', False)]\<rparr>) \<and>
   \<not> isValidPattern ''a;b'' \<and>
   optimizePattern substring_regex always_quiet ''a;b'' (high_prio always_quiet)
       ''high_prio'' (StatsTracker_init, world0) =
     Inr (StatsTracker_init,
          world0\<lparr>log := [(''Invalid pattern: a;b'', True), (''No processes found for: a;b'', False)]\<rparr>)"
proof -
  have none: "getProcessIDs substring_regex always_quiet ''nonexistent_task_xyz'' world0 =
     Inr ([], world0\<lparr>tick := 1\<rparr>)"
    by (simp add: getProcessIDs_def substring_regex_def always_quiet_def quiet_host_def world0_def
        isValidPattern_def forbidden_chars_def isdigit_def stoi_def digit_value_def isValidPID_def isValidPID_exn_def)
  have bad: "\<not> isValidPattern ''a;b''"
    by (simp add: isValidPattern_def forbidden_chars_def)
  note a = optimizePattern_no_match [THEN conjunct1, THEN mp, OF none, THEN conjunct1,
      of "high_prio always_quiet" "''high_prio''" StatsTracker_init]
  note b = optimizePattern_no_match [THEN conjunct2, THEN mp, OF bad,
      of substring_regex always_quiet "high_prio always_quiet" "''high_prio''" StatsTracker_init world0]
  show ?thesis
    using none bad unfolding a b by (simp add: world0_def)
qed

























end
